theory Spec2Isabelle
  imports Main
begin

section \<open>The push command of clasp (src/commands/push.ts)\<close>

text \<open>
  The command pushes the local files of a project to the remote project and, with
  \<^verbatim>\<open>--watch\<close>, pushes again on every batch of changed paths. Everything the command
  does beyond computing values is an effect on a collaborator: the console, the prompt,
  the project file service, the file watcher. The model threads a state through the
  code, which holds the one mutable variable of the command (\<^verbatim>\<open>force\<close>), the trace of
  the effects in the order they happen, and how many prompts and pushes were made.
  What the collaborators answer is fixed by an environment.
\<close>

subsection \<open>Data\<close>

text \<open>
  A JavaScript value of type \<^verbatim>\<open>boolean | undefined\<close> is a \<open>bool option\<close>, with
  \<open>None\<close> for \<^verbatim>\<open>undefined\<close>. The options \<^verbatim>\<open>watch\<close> and \<^verbatim>\<open>force\<close> have this type (both are
  optional fields of \<^verbatim>\<open>CommandOption\<close>), and so has the result of \<^verbatim>\<open>onChange\<close>, which
  is \<^verbatim>\<open>undefined\<close> after the bare \<^verbatim>\<open>return\<close> of line 49 and \<^verbatim>\<open>true\<close> after line 71.
  \<open>truthy\<close> is the test that \<^verbatim>\<open>!x\<close> and \<^verbatim>\<open>if (x)\<close> make on such a value.
\<close>

type_synonym jsbool = "bool option"

fun truthy :: "jsbool \<Rightarrow> bool" where
  "truthy None = False"
| "truthy (Some b) = b"

text \<open>Lines 25-28.\<close>

record CommandOption =
  optWatch :: jsbool
  optForce :: jsbool

text \<open>
  A project file, of which the command reads \<^verbatim>\<open>localPath\<close> only (lines 70 and 76).
  Paths and output lines are strings of bytes (UTF-8).
\<close>

record ProjectFile =
  localPath :: string

text \<open>What a failing call of \<^verbatim>\<open>clasp.files.push()\<close> throws.\<close>

datatype failure = PushFailure string

text \<open>The effects of the command, as they appear in the trace.\<close>

datatype event =
    Log string           \<comment> \<open>\<^verbatim>\<open>console.log\<close> of one line\<close>
  | Spinner string       \<comment> \<open>\<^verbatim>\<open>withSpinner\<close> shows its message\<close>
  | Prompt string        \<comment> \<open>\<^verbatim>\<open>inquirer.prompt\<close> asks a confirmation\<close>
  | PushCall             \<comment> \<open>\<^verbatim>\<open>clasp.files.push()\<close> is called\<close>
  | Subscribe            \<comment> \<open>\<^verbatim>\<open>clasp.files.watchLocalFiles\<close> is called\<close>
  | StopWatching         \<comment> \<open>the stop function of the watcher is called\<close>

text \<open>
  The collaborators, none of which is defined in push.ts: what they return is a
  parameter of the model.
\<close>

record env =
  isInteractive :: bool
    \<comment> \<open>the result of \<^verbatim>\<open>isInteractive()\<close> of ./utils.js\<close>
  promptAnswer :: "nat \<Rightarrow> bool"
    \<comment> \<open>\<^verbatim>\<open>answer.overwrite\<close> of the k-th prompt of the session, counted from 0\<close>
  pushResult :: "nat \<Rightarrow> failure + ProjectFile list"
    \<comment> \<open>the outcome of the k-th call of \<^verbatim>\<open>clasp.files.push()\<close>: an error thrown or
        the files pushed\<close>
  changedFiles :: "ProjectFile list"
    \<comment> \<open>the result of \<^verbatim>\<open>clasp.files.getChangedFiles()\<close>\<close>
  batches :: "string list list"
    \<comment> \<open>the batches of changed paths that the watcher has to deliver, in order\<close>
  formatNumber :: "nat \<Rightarrow> string"
    \<comment> \<open>how the locale of ../intl.js writes a number (the \<^verbatim>\<open>#\<close> of a plural)\<close>

record state =
  force :: jsbool          \<comment> \<open>the variable \<^verbatim>\<open>force\<close> of line 38\<close>
  prompts :: nat           \<comment> \<open>prompts asked so far\<close>
  pushes :: nat            \<comment> \<open>push calls made so far\<close>
  watching :: bool         \<comment> \<open>the watcher is subscribed and not stopped\<close>
  out :: "event list"      \<comment> \<open>the trace, oldest event first\<close>

definition emit :: "event \<Rightarrow> state \<Rightarrow> state" where
  "emit ev s = s\<lparr>out := out s @ [ev]\<rparr>"

subsection \<open>Library functions\<close>

text \<open>
  \<^verbatim>\<open>path.basename(p)\<close> of Node.js with POSIX paths: trailing slashes are dropped, and
  the result is what follows the last remaining slash (the empty string for a path of
  slashes only).
\<close>

definition basename :: "string \<Rightarrow> string" where
  "basename p =
     rev (takeWhile (\<lambda>c. c \<noteq> CHR ''/'') (dropWhile (\<lambda>c. c = CHR ''/'') (rev p)))"

text \<open>
  Modelled from the spec: \<^verbatim>\<open>intl.formatMessage\<close> of ../intl.js is missing. A message
  without arguments is its \<^verbatim>\<open>defaultMessage\<close>, written in place below. The message of
  lines 60-63 is the ICU pattern
  \<^verbatim>\<open>Pushed {count, plural, =0 {no files.} one {one file.} other {# files}}.\<close>
  which the spec reads as "no files" (0), "one file" (1), "{n} files" (n>1); the text
  around the plural and inside each branch is kept as the pattern has it, so that the
  first two branches end with two full stops.
\<close>

definition successMessage :: "env \<Rightarrow> nat \<Rightarrow> string" where
  "successMessage e count =
     ''Pushed '' @
     (if count = 0 then ''no files.''
      else if count = 1 then ''one file.''
      else formatNumber e count @ '' files'') @ ''.''"

text \<open>
  Modelled from the spec: \<^verbatim>\<open>withSpinner\<close> of ./utils.js is missing. The spec has the
  "pushing" status reported before the push starts and a failure of the push
  propagate to the caller: the message is shown, the action runs, and its outcome,
  a result or an error, is the outcome of \<^verbatim>\<open>withSpinner\<close>.
\<close>

definition withSpinner ::
  "string \<Rightarrow> (state \<Rightarrow> (failure + 'a) \<times> state) \<Rightarrow> state \<Rightarrow> (failure + 'a) \<times> state" where
  "withSpinner msg act s = act (emit (Spinner msg) s)"

text \<open>\<^verbatim>\<open>clasp.files.push()\<close>: the call is recorded and answered by the environment.\<close>

definition push :: "env \<Rightarrow> state \<Rightarrow> (failure + ProjectFile list) \<times> state" where
  "push e s = (pushResult e (pushes s), emit PushCall (s\<lparr>pushes := Suc (pushes s)\<rparr>))"

subsection \<open>The command\<close>

text \<open>Lines 107-123. The prompt is a confirmation, its answer a boolean.\<close>

definition confirmManifestUpdate :: "env \<Rightarrow> state \<Rightarrow> bool \<times> state" where
  "confirmManifestUpdate e s =
     (if \<not> isInteractive e then (False, s)
      else (promptAnswer e (prompts s),
            emit (Prompt ''Manifest file has been updated. Do you want to push and overwrite?'')
              (s\<lparr>prompts := Suc (prompts s)\<rparr>)))"

text \<open>Line 41.\<close>

definition isManifestUpdated :: "string list \<Rightarrow> bool" where
  "isManifestUpdated paths = list_ex (\<lambda>p. basename p = ''appsscript.json'') paths"

text \<open>
  Lines 41-44, the manifest gate: the guard of line 42 and the assignment of line 43.
  The result is whether the cycle goes on to push (the test of line 44 fails, or the
  guard of line 42 does).
\<close>

definition manifestGate :: "env \<Rightarrow> string list \<Rightarrow> state \<Rightarrow> bool \<times> state" where
  "manifestGate e paths s =
     (if isManifestUpdated paths \<and> \<not> truthy (force s) then
        (case confirmManifestUpdate e s of
           (answer, s1) \<Rightarrow> (answer, s1\<lparr>force := Some answer\<rparr>))
      else (True, s))"

text \<open>
  The mark that line 70 puts before each path: the box-drawing characters U+2514 and
  U+2500, as the bytes of their UTF-8 encoding.
\<close>

definition treeMark :: string where
  "treeMark = [CHR 0xE2, CHR 0x94, CHR 0x94, CHR 0xE2, CHR 0x94, CHR 0x80]"

text \<open>Lines 52-71, what the cycle does once the gate lets it go on.\<close>

definition pushAndReport :: "env \<Rightarrow> state \<Rightarrow> (failure + jsbool) \<times> state" where
  "pushAndReport e s =
     (case withSpinner ''Pushing files...'' (push e) s of
        (Inl err, s1) \<Rightarrow> (Inl err, s1)
      | (Inr files, s1) \<Rightarrow>
          (Inr (Some True),
           foldl (\<lambda>s2 f. emit (Log (treeMark @ '' '' @ localPath f)) s2)
             (emit (Log (successMessage e (length files))) s1) files))"

text \<open>Lines 40-72.\<close>

definition onChange :: "env \<Rightarrow> string list \<Rightarrow> state \<Rightarrow> (failure + jsbool) \<times> state" where
  "onChange e paths s =
     (case manifestGate e paths s of
        (proceed, s1) \<Rightarrow>
          if \<not> proceed then (Inr None, emit (Log ''Skipping push.'') s1)
          else pushAndReport e s1)"

text \<open>Lines 89-94.\<close>

definition onReady :: "state \<Rightarrow> state" where
  "onReady s = emit (Log ''Waiting for changes...'') s"

text \<open>
  Modelled from the spec: the stop function that \<^verbatim>\<open>clasp.files.watchLocalFiles\<close>
  returns is missing. It cancels the subscription.
\<close>

definition stopWatching :: "state \<Rightarrow> state" where
  "stopWatching s = emit StopWatching (s\<lparr>watching := False\<rparr>)"

text \<open>Lines 96-100, the callback that the command gives to the watcher.\<close>

definition onBatch :: "env \<Rightarrow> string list \<Rightarrow> state \<Rightarrow> (failure + unit) \<times> state" where
  "onBatch e paths s =
     (case onChange e paths s of
        (Inl err, s1) \<Rightarrow> (Inl err, s1)
      | (Inr r, s1) \<Rightarrow> (Inr (), if \<not> truthy r then stopWatching s1 else s1))"

text \<open>
  Modelled from the spec: \<^verbatim>\<open>clasp.files.watchLocalFiles\<close> is missing. The spec has it
  subscribe, hand every delivered batch to the callback, one after the other, deliver
  nothing once the subscription is cancelled, call \<^verbatim>\<open>onReady\<close> after a cycle that
  leaves it subscribed, and let a failure of the callback end the session.
\<close>

fun deliver :: "env \<Rightarrow> string list list \<Rightarrow> state \<Rightarrow> (failure + unit) \<times> state" where
  "deliver e [] s = (Inr (), s)"
| "deliver e (b # bs) s =
     (if \<not> watching s then (Inr (), s)
      else (case onBatch e b s of
              (Inl err, s1) \<Rightarrow> (Inl err, s1)
            | (Inr u, s1) \<Rightarrow> deliver e bs (if watching s1 then onReady s1 else s1)))"

definition watchLocalFiles :: "env \<Rightarrow> state \<Rightarrow> (failure + unit) \<times> state" where
  "watchLocalFiles e s = deliver e (batches e) (emit Subscribe (s\<lparr>watching := True\<rparr>))"

text \<open>Lines 74-83, the cycle on the pending changes.\<close>

definition initialCycle :: "env \<Rightarrow> state \<Rightarrow> (failure + unit) \<times> state" where
  "initialCycle e s =
     (let pendingChanges = changedFiles e in
      if pendingChanges \<noteq> [] then
        (case onChange e (map localPath pendingChanges) s of
           (Inl err, s1) \<Rightarrow> (Inl err, s1)
         | (Inr r, s1) \<Rightarrow> (Inr (), s1))
      else (Inr (), emit (Log ''Script is already up to date.'') s))"

text \<open>The state in which the action starts (lines 37-38).\<close>

definition initial :: "CommandOption \<Rightarrow> state" where
  "initial options = \<lparr>force = optForce options, prompts = 0, pushes = 0,
                      watching = False, out = []\<rparr>"

text \<open>Lines 34-101, the action of the command.\<close>

definition command :: "env \<Rightarrow> CommandOption \<Rightarrow> (failure + unit) \<times> state" where
  "command e options =
     (case initialCycle e (initial options) of
        (Inl err, s1) \<Rightarrow> (Inl err, s1)
      | (Inr u, s1) \<Rightarrow>
          if \<not> truthy (optWatch options) then (Inr (), s1)
          else watchLocalFiles e s1)"

subsection \<open>Concrete collaborators\<close>

text \<open>
  A number in decimal digits, and an environment built from what the collaborators
  answer, for running the command on concrete inputs.
\<close>

fun decimal :: "nat \<Rightarrow> string" where
  "decimal n =
     (if n < 10 then [char_of (48 + n)]
      else decimal (n div 10) @ [char_of (48 + n mod 10)])"

declare decimal.simps [simp del]

definition session ::
  "bool \<Rightarrow> bool \<Rightarrow> (failure + ProjectFile list) \<Rightarrow> string list \<Rightarrow> string list list \<Rightarrow> env" where
  "session interactive answer result pending bs =
     \<lparr>isInteractive = interactive, promptAnswer = (\<lambda>k. answer),
      pushResult = (\<lambda>k. result),
      changedFiles = map (\<lambda>p. \<lparr>localPath = p\<rparr>) pending,
      batches = bs, formatNumber = decimal\<rparr>"

subsection \<open>How the force flag may change\<close>

text \<open>
  A state \<open>s'\<close> reached from \<open>s\<close> changes the force flag by an upgrade only: no prompt is
  forgotten, a flag that is \<^verbatim>\<open>true\<close> stays \<^verbatim>\<open>true\<close>, and a flag that has become \<^verbatim>\<open>true\<close>
  did so in an interactive environment in which one of the prompts asked between \<open>s\<close>
  and \<open>s'\<close> was answered with yes.
\<close>

definition upgradeOnly :: "env \<Rightarrow> state \<Rightarrow> state \<Rightarrow> bool" where
  "upgradeOnly e s s' \<longleftrightarrow>
     prompts s \<le> prompts s'
     \<and> (force s = Some True \<longrightarrow> force s' = Some True)
     \<and> (force s' = Some True \<and> force s \<noteq> Some True \<longrightarrow>
          isInteractive e \<and> (\<exists>k \<in> {prompts s ..< prompts s'}. promptAnswer e k))"

section \<open>Properties\<close>

subsection \<open>Closed forms\<close>

lemma isManifestUpdated_iff:
  "isManifestUpdated paths \<longleftrightarrow> (\<exists>p \<in> set paths. basename p = ''appsscript.json'')"
  by (simp add: isManifestUpdated_def list_ex_iff)

lemma truthy_iff: "truthy b \<longleftrightarrow> b = Some True"
  by (cases b) auto

lemma manifestGate_pass:
  "\<not> isManifestUpdated paths \<or> truthy (force s) \<Longrightarrow> manifestGate e paths s = (True, s)"
  by (auto simp: manifestGate_def)

lemma manifestGate_ask:
  "isManifestUpdated paths \<Longrightarrow> \<not> truthy (force s) \<Longrightarrow>
   manifestGate e paths s =
     (if \<not> isInteractive e then (False, s\<lparr>force := Some False\<rparr>)
      else (promptAnswer e (prompts s),
            s\<lparr>force := Some (promptAnswer e (prompts s)), prompts := Suc (prompts s),
              out := out s @
                [Prompt ''Manifest file has been updated. Do you want to push and overwrite?'']\<rparr>))"
  by (simp add: manifestGate_def confirmManifestUpdate_def emit_def)

lemma report_files:
  "foldl (\<lambda>s2 f. emit (Log (g f)) s2) s files = s\<lparr>out := out s @ map (\<lambda>f. Log (g f)) files\<rparr>"
  by (induction files arbitrary: s) (simp_all add: emit_def)

lemma pushAndReport_eq:
  "pushAndReport e s =
     (case pushResult e (pushes s) of
        Inl err \<Rightarrow>
          (Inl err, s\<lparr>pushes := Suc (pushes s),
                       out := out s @ [Spinner ''Pushing files...'', PushCall]\<rparr>)
      | Inr files \<Rightarrow>
          (Inr (Some True),
           s\<lparr>pushes := Suc (pushes s),
             out := out s @ [Spinner ''Pushing files...'', PushCall,
                             Log (successMessage e (length files))]
                    @ map (\<lambda>f. Log (treeMark @ '' '' @ localPath f)) files\<rparr>))"
proof (cases "pushResult e (pushes s)")
  case (Inl err)
  then show ?thesis
    by (simp add: pushAndReport_def withSpinner_def push_def emit_def)
next
  case (Inr files)
  then have "pushAndReport e s =
      (Inr (Some True),
       foldl (\<lambda>s2 f. emit (Log (treeMark @ '' '' @ localPath f)) s2)
         (emit (Log (successMessage e (length files)))
            (emit PushCall (emit (Spinner ''Pushing files...'') s\<lparr>pushes := Suc (pushes s)\<rparr>)))
         files)"
    by (simp add: pushAndReport_def withSpinner_def push_def emit_def)
  also have "\<dots> =
      (Inr (Some True),
       s\<lparr>pushes := Suc (pushes s),
         out := out s @ [Spinner ''Pushing files...'', PushCall,
                         Log (successMessage e (length files))]
                @ map (\<lambda>f. Log (treeMark @ '' '' @ localPath f)) files\<rparr>)"
    unfolding report_files by (simp add: emit_def)
  finally show ?thesis
    using Inr by simp
qed

lemma manifestGate_keeps:
  "pushes (snd (manifestGate e paths s)) = pushes s"
  "watching (snd (manifestGate e paths s)) = watching s"
  by (simp_all add: manifestGate_def confirmManifestUpdate_def emit_def split: prod.split)

lemma onChange_declined:
  "\<not> fst (manifestGate e paths s) \<Longrightarrow>
   onChange e paths s = (Inr None, emit (Log ''Skipping push.'') (snd (manifestGate e paths s)))"
  by (cases "manifestGate e paths s") (simp add: onChange_def)

lemma onChange_proceeds:
  "fst (manifestGate e paths s) \<Longrightarrow>
   onChange e paths s = pushAndReport e (snd (manifestGate e paths s))"
  by (cases "manifestGate e paths s") (simp add: onChange_def)

subsection \<open>The manifest gate\<close>

text \<open>
  C2. When no path of the batch has the base name \<^verbatim>\<open>appsscript.json\<close>, or the force flag
  is already true, the manifest gate lets the cycle proceed and leaves the state as it
  was: no prompt is asked (the count of prompts and the trace are those of before) and
  the force flag keeps its value. The cycle is then the push and its report.
\<close>

theorem manifestGate_proceeds_unprompted:
  assumes "(\<forall>p \<in> set paths. basename p \<noteq> ''appsscript.json'') \<or> force s = Some True"
  shows "manifestGate e paths s = (True, s) \<and> onChange e paths s = pushAndReport e s"
proof -
  from assms have "\<not> isManifestUpdated paths \<or> truthy (force s)"
    by (auto simp: isManifestUpdated_iff)
  then have gate: "manifestGate e paths s = (True, s)"
    by (rule manifestGate_pass)
  then show ?thesis
    by (simp add: onChange_def)
qed

theorem manifestGate_proceeds_unprompted_witness:
  "manifestGate (session True False (Inr []) [] []) [''src/Code.js'', ''appsscript.json.bak'']
        (initial \<lparr>optWatch = None, optForce = None\<rparr>)
      = (True, initial \<lparr>optWatch = None, optForce = None\<rparr>)
   \<and> manifestGate (session True False (Inr []) [] []) [''appsscript.json'']
        (initial \<lparr>optWatch = None, optForce = Some True\<rparr>)
      = (True, initial \<lparr>optWatch = None, optForce = Some True\<rparr>)"
proof -
  have a: "(\<forall>p \<in> set [''src/Code.js'', ''appsscript.json.bak'']. basename p \<noteq> ''appsscript.json'')
      \<or> force (initial \<lparr>optWatch = None, optForce = None\<rparr>) = Some True"
    by (simp add: basename_def)
  have b: "(\<forall>p \<in> set [''appsscript.json'']. basename p \<noteq> ''appsscript.json'')
      \<or> force (initial \<lparr>optWatch = None, optForce = Some True\<rparr>) = Some True"
    by (simp add: initial_def)
  show ?thesis
    using manifestGate_proceeds_unprompted [OF a, of "session True False (Inr []) [] []"]
      manifestGate_proceeds_unprompted [OF b, of "session True False (Inr []) [] []"]
    by blast
qed

text \<open>
  C3. When a path of the batch has the base name \<^verbatim>\<open>appsscript.json\<close>, the force flag is
  not true (\<^verbatim>\<open>false\<close> or unset) and the environment is not interactive, the gate does
  not let the cycle proceed, and no prompt is shown: the state changes in the force
  flag only, which is now \<^verbatim>\<open>false\<close>, so that the count of prompts and the trace are
  those of before.
\<close>

theorem manifestGate_declines_noninteractive:
  assumes "\<exists>p \<in> set paths. basename p = ''appsscript.json''"
    and "force s \<noteq> Some True"
    and "\<not> isInteractive e"
  shows "manifestGate e paths s = (False, s\<lparr>force := Some False\<rparr>)
     \<and> prompts (snd (manifestGate e paths s)) = prompts s
     \<and> out (snd (manifestGate e paths s)) = out s"
  using assms by (simp add: manifestGate_ask isManifestUpdated_iff truthy_iff)

theorem manifestGate_declines_noninteractive_witness:
  "(\<exists>p \<in> set [''Code.js'', ''proj/appsscript.json'']. basename p = ''appsscript.json'')
   \<and> force (initial \<lparr>optWatch = None, optForce = None\<rparr>) \<noteq> Some True
   \<and> \<not> isInteractive (session False True (Inr []) [] [])
   \<and> manifestGate (session False True (Inr []) [] []) [''Code.js'', ''proj/appsscript.json'']
        (initial \<lparr>optWatch = None, optForce = None\<rparr>)
      = (False, \<lparr>force = Some False, prompts = 0, pushes = 0, watching = False, out = []\<rparr>)"
proof -
  have a: "\<exists>p \<in> set [''Code.js'', ''proj/appsscript.json'']. basename p = ''appsscript.json''"
    by (simp add: basename_def)
  have b: "force (initial \<lparr>optWatch = None, optForce = None\<rparr>) \<noteq> Some True"
    by (simp add: initial_def)
  have c: "\<not> isInteractive (session False True (Inr []) [] [])"
    by (simp add: session_def)
  show ?thesis
    using a b c manifestGate_declines_noninteractive [OF a b c]
    by (simp add: initial_def)
qed

subsection \<open>One cycle\<close>

text \<open>
  C4. When the manifest gate does not let the cycle proceed, the cycle logs
  \<^verbatim>\<open>Skipping push.\<close> and returns the falsy value \<^verbatim>\<open>undefined\<close> (the bare \<^verbatim>\<open>return\<close> of
  line 49), which line 97 reads as "stop". The push is never called: the count of
  pushes is that of before, and the cycle adds to the trace the prompt, when the
  environment is interactive, and the skip message, nothing else.
\<close>

theorem onChange_declined_never_pushes:
  assumes "\<not> fst (manifestGate e paths s)"
  shows "fst (onChange e paths s) = Inr None
     \<and> (\<exists>r. fst (onChange e paths s) = Inr r \<and> \<not> truthy r)
     \<and> pushes (snd (onChange e paths s)) = pushes s
     \<and> out (snd (onChange e paths s)) =
         out s @
         (if isInteractive e
          then [Prompt ''Manifest file has been updated. Do you want to push and overwrite?'']
          else [])
         @ [Log ''Skipping push.'']"
proof -
  have "\<not> (\<not> isManifestUpdated paths \<or> truthy (force s))"
  proof
    assume "\<not> isManifestUpdated paths \<or> truthy (force s)"
    then have "manifestGate e paths s = (True, s)"
      by (rule manifestGate_pass)
    with assms show False
      by simp
  qed
  then have ask: "isManifestUpdated paths" "\<not> truthy (force s)"
    by simp_all
  have "out (snd (manifestGate e paths s)) =
      out s @ (if isInteractive e
               then [Prompt ''Manifest file has been updated. Do you want to push and overwrite?'']
               else [])"
    by (simp add: manifestGate_ask [OF ask])
  with assms show ?thesis
    by (simp add: onChange_declined emit_def manifestGate_keeps)
qed

theorem onChange_declined_never_pushes_witness:
  "\<not> fst (manifestGate (session True False (Inr []) [] []) [''appsscript.json'']
            (initial \<lparr>optWatch = None, optForce = Some False\<rparr>))
   \<and> onChange (session True False (Inr []) [] []) [''appsscript.json'']
        (initial \<lparr>optWatch = None, optForce = Some False\<rparr>)
      = (Inr None,
         \<lparr>force = Some False, prompts = 1, pushes = 0, watching = False,
          out = [Prompt ''Manifest file has been updated. Do you want to push and overwrite?'',
                 Log ''Skipping push.'']\<rparr>)"
proof -
  have a: "\<not> fst (manifestGate (session True False (Inr []) [] []) [''appsscript.json'']
            (initial \<lparr>optWatch = None, optForce = Some False\<rparr>))"
    by (simp add: manifestGate_def isManifestUpdated_def basename_def initial_def
        confirmManifestUpdate_def session_def)
  have "snd (onChange (session True False (Inr []) [] []) [''appsscript.json'']
            (initial \<lparr>optWatch = None, optForce = Some False\<rparr>)) =
      \<lparr>force = Some False, prompts = 1, pushes = 0, watching = False,
       out = [Prompt ''Manifest file has been updated. Do you want to push and overwrite?'',
              Log ''Skipping push.'']\<rparr>"
    by code_simp
  with a onChange_declined_never_pushes [OF a] show ?thesis
    by (cases "onChange (session True False (Inr []) [] []) [''appsscript.json'']
            (initial \<lparr>optWatch = None, optForce = Some False\<rparr>)") simp
qed

text \<open>
  C7. After a push that succeeds with the files \<open>files\<close>, the cycle adds to the trace
  the spinner message, the push, the success message for the number of files, and then
  one line per file, the mark and the local path of the file, in the order of \<open>files\<close>.
  The success message says \<^verbatim>\<open>no files\<close> for 0, \<^verbatim>\<open>one file\<close> for 1 and the number
  followed by \<^verbatim>\<open>files\<close> above 1.
\<close>

theorem onChange_reports_pushed_files:
  assumes "fst (manifestGate e paths s)"
    and "pushResult e (pushes s) = Inr files"
  shows "out (snd (onChange e paths s)) =
           out (snd (manifestGate e paths s))
           @ [Spinner ''Pushing files...'', PushCall, Log (successMessage e (length files))]
           @ map (\<lambda>f. Log (treeMark @ '' '' @ localPath f)) files
     \<and> successMessage e 0 = ''Pushed no files..''
     \<and> successMessage e 1 = ''Pushed one file..''
     \<and> (\<forall>n. 1 < n \<longrightarrow> successMessage e n = ''Pushed '' @ formatNumber e n @ '' files.'')"
  using assms
  by (simp add: onChange_proceeds pushAndReport_eq manifestGate_keeps successMessage_def)

theorem onChange_reports_pushed_files_witness:
  "fst (manifestGate
          (session True False (Inr [\<lparr>localPath = ''a.js''\<rparr>, \<lparr>localPath = ''b.js''\<rparr>]) [] [])
          [''a.js'', ''b.js''] (initial \<lparr>optWatch = None, optForce = Some False\<rparr>))
   \<and> out (snd (onChange
          (session True False (Inr [\<lparr>localPath = ''a.js''\<rparr>, \<lparr>localPath = ''b.js''\<rparr>]) [] [])
          [''a.js'', ''b.js''] (initial \<lparr>optWatch = None, optForce = Some False\<rparr>)))
      = [Spinner ''Pushing files...'', PushCall, Log ''Pushed 2 files.'',
         Log (treeMark @ '' a.js''), Log (treeMark @ '' b.js'')]
   \<and> (1::nat) < 2
   \<and> successMessage
        (session True False (Inr [\<lparr>localPath = ''a.js''\<rparr>, \<lparr>localPath = ''b.js''\<rparr>]) [] []) 2
      = ''Pushed 2 files.''"
proof -
  let ?e = "session True False (Inr [\<lparr>localPath = ''a.js''\<rparr>, \<lparr>localPath = ''b.js''\<rparr>]) [] []"
  let ?s = "initial \<lparr>optWatch = None, optForce = Some False\<rparr>"
  have gate: "manifestGate ?e [''a.js'', ''b.js''] ?s = (True, ?s)"
    by (simp add: manifestGate_def isManifestUpdated_def basename_def)
  have a: "fst (manifestGate ?e [''a.js'', ''b.js''] ?s)"
    by (simp add: gate)
  have b: "pushResult ?e (pushes ?s) = Inr [\<lparr>localPath = ''a.js''\<rparr>, \<lparr>localPath = ''b.js''\<rparr>]"
    by (simp add: session_def)
  have c: "successMessage ?e (Suc (Suc 0)) = ''Pushed 2 files.''"
    by code_simp
  then have c': "successMessage ?e 2 = ''Pushed 2 files.''"
    by (simp add: numeral_2_eq_2)
  have d: "out ?s = []"
    by (simp add: initial_def)
  show ?thesis
    using a onChange_reports_pushed_files [OF a b]
    by (simp add: gate c c' d)
qed

text \<open>
  C8. When the push throws, the cycle ends with that error: the trace has the spinner
  message and the one push call, no second call and no success message, and the
  callback of the watcher ends with the same error in the same state.
\<close>

theorem onChange_push_failure_propagates:
  assumes "fst (manifestGate e paths s)"
    and "pushResult e (pushes s) = Inl err"
  shows "fst (onChange e paths s) = Inl err
     \<and> pushes (snd (onChange e paths s)) = Suc (pushes s)
     \<and> out (snd (onChange e paths s)) =
         out (snd (manifestGate e paths s)) @ [Spinner ''Pushing files...'', PushCall]
     \<and> onBatch e paths s = (Inl err, snd (onChange e paths s))"
proof -
  have "onChange e paths s =
      (Inl err, (snd (manifestGate e paths s))
         \<lparr>pushes := Suc (pushes s),
          out := out (snd (manifestGate e paths s)) @ [Spinner ''Pushing files...'', PushCall]\<rparr>)"
    using assms by (simp add: onChange_proceeds pushAndReport_eq manifestGate_keeps)
  then show ?thesis
    by (simp add: onBatch_def)
qed

theorem onChange_push_failure_propagates_witness:
  "fst (manifestGate (session True False (Inl (PushFailure ''ECONNRESET'')) [] [])
          [''Code.js''] (initial \<lparr>optWatch = None, optForce = None\<rparr>))
   \<and> onChange (session True False (Inl (PushFailure ''ECONNRESET'')) [] [])
        [''Code.js''] (initial \<lparr>optWatch = None, optForce = None\<rparr>)
      = (Inl (PushFailure ''ECONNRESET''),
         \<lparr>force = None, prompts = 0, pushes = 1, watching = False,
          out = [Spinner ''Pushing files...'', PushCall]\<rparr>)"
proof -
  let ?e = "session True False (Inl (PushFailure ''ECONNRESET'')) [] []"
  let ?s = "initial \<lparr>optWatch = None, optForce = None\<rparr>"
  have gate: "manifestGate ?e [''Code.js''] ?s = (True, ?s)"
    by (simp add: manifestGate_def isManifestUpdated_def basename_def)
  have a: "fst (manifestGate ?e [''Code.js''] ?s)"
    by (simp add: gate)
  have b: "pushResult ?e (pushes ?s) = Inl (PushFailure ''ECONNRESET'')"
    by (simp add: session_def)
  have "snd (onChange ?e [''Code.js''] ?s) =
      \<lparr>force = None, prompts = 0, pushes = 1, watching = False,
       out = [Spinner ''Pushing files...'', PushCall]\<rparr>"
    by code_simp
  with a onChange_push_failure_propagates [OF a b] show ?thesis
    by (cases "onChange ?e [''Code.js''] ?s") simp
qed

text \<open>
  C9. A push that returns no file is a success like any other: the cycle logs the
  message for zero files and returns \<^verbatim>\<open>true\<close>; the callback of the watcher does not
  call the stop function, so that a subscribed watcher stays subscribed, reports that
  it waits, and delivers the batches that follow.
\<close>

theorem onChange_empty_push_continues:
  assumes "fst (manifestGate e paths s)"
    and "pushResult e (pushes s) = Inr []"
    and "watching s"
  shows "fst (onChange e paths s) = Inr (Some True)
     \<and> out (snd (onChange e paths s)) =
         out (snd (manifestGate e paths s))
         @ [Spinner ''Pushing files...'', PushCall, Log ''Pushed no files..'']
     \<and> onBatch e paths s = (Inr (), snd (onChange e paths s))
     \<and> watching (snd (onBatch e paths s))
     \<and> deliver e (paths # bs) s = deliver e bs (onReady (snd (onChange e paths s)))"
proof -
  have run: "onChange e paths s =
      (Inr (Some True), (snd (manifestGate e paths s))
         \<lparr>pushes := Suc (pushes s),
          out := out (snd (manifestGate e paths s))
                 @ [Spinner ''Pushing files...'', PushCall, Log ''Pushed no files..'']\<rparr>)"
    using assms(1,2)
    by (simp add: onChange_proceeds pushAndReport_eq manifestGate_keeps successMessage_def)
  then have batch: "onBatch e paths s = (Inr (), snd (onChange e paths s))"
    by (simp add: onBatch_def)
  have still: "watching (snd (onChange e paths s))"
    using assms(3) by (simp add: run manifestGate_keeps)
  from batch still assms(3) have "deliver e (paths # bs) s =
      deliver e bs (onReady (snd (onChange e paths s)))"
    by simp
  with run batch still show ?thesis
    by simp
qed

theorem onChange_empty_push_continues_witness:
  "fst (manifestGate (session False False (Inr []) [] []) [''Code.js'']
          ((initial \<lparr>optWatch = Some True, optForce = None\<rparr>)\<lparr>watching := True\<rparr>))
   \<and> onBatch (session False False (Inr []) [] []) [''Code.js'']
          ((initial \<lparr>optWatch = Some True, optForce = None\<rparr>)\<lparr>watching := True\<rparr>)
      = (Inr (),
         \<lparr>force = None, prompts = 0, pushes = 1, watching = True,
          out = [Spinner ''Pushing files...'', PushCall, Log ''Pushed no files..'']\<rparr>)"
proof -
  let ?e = "session False False (Inr []) [] []"
  let ?s = "(initial \<lparr>optWatch = Some True, optForce = None\<rparr>)\<lparr>watching := True\<rparr>"
  have a: "fst (manifestGate ?e [''Code.js''] ?s)"
    by (simp add: manifestGate_def isManifestUpdated_def basename_def)
  have b: "pushResult ?e (pushes ?s) = Inr []"
    by (simp add: session_def)
  have c: "watching ?s"
    by simp
  have "snd (onChange ?e [''Code.js''] ?s) =
      \<lparr>force = None, prompts = 0, pushes = 1, watching = True,
       out = [Spinner ''Pushing files...'', PushCall, Log ''Pushed no files..'']\<rparr>"
    by code_simp
  with a onChange_empty_push_continues [OF a b c] show ?thesis
    by simp
qed

text \<open>
  C10. On a batch in which no path has the base name \<^verbatim>\<open>appsscript.json\<close>, two cycles
  that start in states differing in the force flag only return the same value and end
  in states that differ in the force flag only, each with the flag it started with:
  the same prompts (none), the same push, the same trace.
\<close>

theorem onChange_force_irrelevant_without_manifest:
  assumes "\<forall>p \<in> set paths. basename p \<noteq> ''appsscript.json''"
  shows "fst (onChange e paths (s\<lparr>force := fa\<rparr>)) = fst (onChange e paths (s\<lparr>force := fb\<rparr>))
     \<and> (snd (onChange e paths (s\<lparr>force := fa\<rparr>)))\<lparr>force := fb\<rparr>
         = snd (onChange e paths (s\<lparr>force := fb\<rparr>))
     \<and> force (snd (onChange e paths (s\<lparr>force := fa\<rparr>))) = fa
     \<and> prompts (snd (onChange e paths (s\<lparr>force := fa\<rparr>))) = prompts s"
proof -
  from assms have no: "\<not> isManifestUpdated paths"
    by (simp add: isManifestUpdated_iff)
  have run: "onChange e paths (s\<lparr>force := f\<rparr>) = pushAndReport e (s\<lparr>force := f\<rparr>)" for f
    using no by (simp add: onChange_def manifestGate_pass)
  show ?thesis
    unfolding run pushAndReport_eq by (simp split: sum.split)
qed

theorem onChange_force_irrelevant_without_manifest_witness:
  "fst (onChange (session True True (Inr [\<lparr>localPath = ''src/Code.js''\<rparr>]) [] []) [''src/Code.js'']
        ((initial \<lparr>optWatch = None, optForce = None\<rparr>)\<lparr>force := Some True\<rparr>))
     = fst (onChange (session True True (Inr [\<lparr>localPath = ''src/Code.js''\<rparr>]) [] []) [''src/Code.js'']
        ((initial \<lparr>optWatch = None, optForce = None\<rparr>)\<lparr>force := Some False\<rparr>))
   \<and> out (snd (onChange (session True True (Inr [\<lparr>localPath = ''src/Code.js''\<rparr>]) [] []) [''src/Code.js'']
        ((initial \<lparr>optWatch = None, optForce = None\<rparr>)\<lparr>force := None\<rparr>)))
     = [Spinner ''Pushing files...'', PushCall, Log ''Pushed one file..'',
        Log (treeMark @ '' src/Code.js'')]"
proof -
  let ?e = "session True True (Inr [\<lparr>localPath = ''src/Code.js''\<rparr>]) [] []"
  let ?s = "initial \<lparr>optWatch = None, optForce = None\<rparr>"
  have a: "\<forall>p \<in> set [''src/Code.js'']. basename p \<noteq> ''appsscript.json''"
    by (simp add: basename_def)
  have "out (snd (onChange ?e [''src/Code.js''] (?s\<lparr>force := Some True\<rparr>))) =
      [Spinner ''Pushing files...'', PushCall, Log ''Pushed one file..'',
       Log (treeMark @ '' src/Code.js'')]"
    by code_simp
  moreover have "out ((snd (onChange ?e [''src/Code.js''] (?s\<lparr>force := Some True\<rparr>)))\<lparr>force := None\<rparr>)
      = out (snd (onChange ?e [''src/Code.js''] (?s\<lparr>force := None\<rparr>)))"
    using onChange_force_irrelevant_without_manifest [OF a, where e = ?e and s = ?s and fa = "Some True" and fb = None]
    by simp
  ultimately show ?thesis
    using onChange_force_irrelevant_without_manifest [OF a, where e = ?e and s = ?s and fa = "Some True" and fb = "Some False"]
    by simp
qed

subsection \<open>The pending changes\<close>

text \<open>
  C6. When there is no pending change, the cycle on the pending changes logs the one
  line \<^verbatim>\<open>Script is already up to date.\<close> and does nothing else: the push is not called.
  Without \<^verbatim>\<open>--watch\<close> the command ends there; with it, the command goes on to watch.
\<close>

theorem command_already_up_to_date:
  assumes "changedFiles e = []"
  shows "initialCycle e (initial options) =
           (Inr (),
            \<lparr>force = optForce options, prompts = 0, pushes = 0, watching = False,
             out = [Log ''Script is already up to date.'']\<rparr>)
     \<and> command e options =
           (if \<not> truthy (optWatch options) then
              (Inr (),
               \<lparr>force = optForce options, prompts = 0, pushes = 0, watching = False,
                out = [Log ''Script is already up to date.'']\<rparr>)
            else watchLocalFiles e
               \<lparr>force = optForce options, prompts = 0, pushes = 0, watching = False,
                out = [Log ''Script is already up to date.'']\<rparr>)"
  using assms by (simp add: command_def initialCycle_def initial_def emit_def)

theorem command_already_up_to_date_witness:
  "changedFiles (session True True (Inr [\<lparr>localPath = ''Code.js''\<rparr>]) [] [[''Code.js'']]) = []
   \<and> command (session True True (Inr [\<lparr>localPath = ''Code.js''\<rparr>]) [] [[''Code.js'']])
        \<lparr>optWatch = None, optForce = None\<rparr>
      = (Inr (),
         \<lparr>force = None, prompts = 0, pushes = 0, watching = False,
          out = [Log ''Script is already up to date.'']\<rparr>)"
proof -
  have a: "changedFiles (session True True (Inr [\<lparr>localPath = ''Code.js''\<rparr>]) [] [[''Code.js'']]) = []"
    by (simp add: session_def)
  show ?thesis
    using a command_already_up_to_date [OF a, of "\<lparr>optWatch = None, optForce = None\<rparr>"]
    by simp
qed

subsection \<open>The force flag over a session\<close>

lemma upgradeOnly_same:
  "force s' = force s \<Longrightarrow> prompts s' = prompts s \<Longrightarrow> upgradeOnly e s s'"
  by (simp add: upgradeOnly_def)

lemma upgradeOnly_trans:
  assumes "upgradeOnly e s s'" and "upgradeOnly e s' s''"
  shows "upgradeOnly e s s''"
proof -
  have le: "prompts s \<le> prompts s'" "prompts s' \<le> prompts s''"
    using assms by (simp_all add: upgradeOnly_def)
  have keep: "force s = Some True \<longrightarrow> force s'' = Some True"
    using assms by (simp add: upgradeOnly_def)
  have up: "isInteractive e \<and> (\<exists>k \<in> {prompts s ..< prompts s''}. promptAnswer e k)"
    if now: "force s'' = Some True" and before: "force s \<noteq> Some True"
  proof (cases "force s' = Some True")
    case True
    with before assms(1) obtain k where "isInteractive e" "prompts s \<le> k" "k < prompts s'"
      "promptAnswer e k"
      by (auto simp: upgradeOnly_def)
    with le(2) show ?thesis
      by (intro conjI bexI [of _ k]) auto
  next
    case False
    with now assms(2) obtain k where "isInteractive e" "prompts s' \<le> k" "k < prompts s''"
      "promptAnswer e k"
      by (auto simp: upgradeOnly_def)
    with le(1) show ?thesis
      by (intro conjI bexI [of _ k]) auto
  qed
  from le keep up show ?thesis
    unfolding upgradeOnly_def by (intro conjI impI) auto
qed

lemma pushAndReport_keeps:
  "force (snd (pushAndReport e s)) = force s"
  "prompts (snd (pushAndReport e s)) = prompts s"
  "watching (snd (pushAndReport e s)) = watching s"
  by (simp_all add: pushAndReport_eq split: sum.split)

lemma onChange_upgradeOnly: "upgradeOnly e s (snd (onChange e paths s))"
proof (cases "isManifestUpdated paths \<and> \<not> truthy (force s)")
  case False
  then have "onChange e paths s = pushAndReport e s"
    by (simp add: onChange_def manifestGate_pass)
  then show ?thesis
    by (simp add: upgradeOnly_same pushAndReport_keeps)
next
  case True
  then have ask: "isManifestUpdated paths" "\<not> truthy (force s)"
    by simp_all
  show ?thesis
  proof (cases "fst (manifestGate e paths s)")
    case False
    then show ?thesis
      using ask
      by (simp add: onChange_declined manifestGate_ask emit_def upgradeOnly_def truthy_iff
          split: if_splits)
  next
    case True
    then show ?thesis
      using ask
      by (simp add: onChange_proceeds pushAndReport_keeps manifestGate_ask upgradeOnly_def
          truthy_iff split: if_splits)
  qed
qed

lemma onBatch_keeps:
  "force (snd (onBatch e paths s)) = force (snd (onChange e paths s))"
  "prompts (snd (onBatch e paths s)) = prompts (snd (onChange e paths s))"
  by (cases "onChange e paths s"; simp add: onBatch_def stopWatching_def emit_def
      split: sum.split)+

lemma onBatch_upgradeOnly: "upgradeOnly e s (snd (onBatch e paths s))"
  using onChange_upgradeOnly [of e s paths]
  by (simp add: upgradeOnly_def onBatch_keeps)

lemma deliver_upgradeOnly: "upgradeOnly e s (snd (deliver e bs s))"
proof (induction bs arbitrary: s)
  case Nil
  show ?case
    by (simp add: upgradeOnly_same)
next
  case (Cons b bs)
  show ?case
  proof (cases "watching s")
    case False
    then show ?thesis
      by (simp add: upgradeOnly_same)
  next
    case True
    obtain r s1 where run: "onBatch e b s = (r, s1)"
      by (cases "onBatch e b s")
    then have first: "upgradeOnly e s s1"
      using onBatch_upgradeOnly [of e s b] by simp
    show ?thesis
    proof (cases r)
      case (Inl err)
      with True run first show ?thesis
        by simp
    next
      case (Inr u)
      let ?s2 = "if watching s1 then onReady s1 else s1"
      have "upgradeOnly e s1 ?s2"
        by (simp add: upgradeOnly_same onReady_def emit_def)
      with first have "upgradeOnly e s ?s2"
        by (rule upgradeOnly_trans)
      moreover have "upgradeOnly e ?s2 (snd (deliver e bs ?s2))"
        by (rule Cons.IH)
      ultimately have "upgradeOnly e s (snd (deliver e bs ?s2))"
        by (rule upgradeOnly_trans)
      with True run Inr show ?thesis
        by simp
    qed
  qed
qed

lemma initialCycle_upgradeOnly: "upgradeOnly e s (snd (initialCycle e s))"
proof (cases "changedFiles e = []")
  case True
  then show ?thesis
    by (simp add: initialCycle_def emit_def upgradeOnly_same)
next
  case False
  then have "snd (initialCycle e s) = snd (onChange e (map localPath (changedFiles e)) s)"
    by (cases "onChange e (map localPath (changedFiles e)) s")
       (simp add: initialCycle_def split: sum.split)
  then show ?thesis
    by (simp add: onChange_upgradeOnly)
qed

lemma command_upgradeOnly: "upgradeOnly e (initial options) (snd (command e options))"
proof -
  obtain r s1 where run: "initialCycle e (initial options) = (r, s1)"
    by (cases "initialCycle e (initial options)")
  then have first: "upgradeOnly e (initial options) s1"
    using initialCycle_upgradeOnly [of e "initial options"] by simp
  show ?thesis
  proof (cases "(\<exists>err. r = Inl err) \<or> \<not> truthy (optWatch options)")
    case True
    with run first show ?thesis
      by (auto simp: command_def split: sum.split)
  next
    case False
    let ?s2 = "emit Subscribe (s1\<lparr>watching := True\<rparr>)"
    from False run have "snd (command e options) = snd (deliver e (batches e) ?s2)"
      by (auto simp: command_def watchLocalFiles_def split: sum.split)
    moreover have "upgradeOnly e s1 ?s2"
      by (simp add: upgradeOnly_same emit_def)
    moreover have "upgradeOnly e ?s2 (snd (deliver e (batches e) ?s2))"
      by (rule deliver_upgradeOnly)
    ultimately show ?thesis
      using first by (metis upgradeOnly_trans)
  qed
qed

text \<open>
  C5. The force flag changes by an upgrade only, over one cycle, over any sequence of
  batches that the watcher delivers from any state, and over the whole command: a flag
  that is \<^verbatim>\<open>true\<close> before is \<^verbatim>\<open>true\<close> after, so that it is never downgraded and an upgrade
  persists for the cycles that follow; and a flag that is \<^verbatim>\<open>true\<close> after and was not
  before became so in an interactive environment, in which one of the prompts asked in
  between was answered with yes.
\<close>

theorem force_flag_upgrade_only:
  "upgradeOnly e s (snd (onChange e paths s))
   \<and> upgradeOnly e s (snd (deliver e bs s))
   \<and> upgradeOnly e (initial options) (snd (command e options))"
  by (simp add: onChange_upgradeOnly deliver_upgradeOnly command_upgradeOnly)

theorem force_flag_upgrade_only_witness:
  "force (initial \<lparr>optWatch = Some True, optForce = None\<rparr>) \<noteq> Some True
   \<and> force (snd (command
        (session True True (Inr [\<lparr>localPath = ''appsscript.json''\<rparr>]) [''appsscript.json'']
           [[''appsscript.json'']])
        \<lparr>optWatch = Some True, optForce = None\<rparr>)) = Some True
   \<and> isInteractive
        (session True True (Inr [\<lparr>localPath = ''appsscript.json''\<rparr>]) [''appsscript.json'']
           [[''appsscript.json'']])
   \<and> (\<exists>k \<in> {prompts (initial \<lparr>optWatch = Some True, optForce = None\<rparr>) ..<
              prompts (snd (command
                (session True True (Inr [\<lparr>localPath = ''appsscript.json''\<rparr>])
                   [''appsscript.json''] [[''appsscript.json'']])
                \<lparr>optWatch = Some True, optForce = None\<rparr>))}.
         promptAnswer
           (session True True (Inr [\<lparr>localPath = ''appsscript.json''\<rparr>]) [''appsscript.json'']
              [[''appsscript.json'']]) k)
   \<and> force (initial \<lparr>optWatch = Some True, optForce = Some True\<rparr>) = Some True
   \<and> force (snd (command
        (session False False (Inr [\<lparr>localPath = ''appsscript.json''\<rparr>]) [''appsscript.json'']
           [[''appsscript.json'']])
        \<lparr>optWatch = Some True, optForce = Some True\<rparr>)) = Some True"
proof -
  let ?e = "session True True (Inr [\<lparr>localPath = ''appsscript.json''\<rparr>]) [''appsscript.json'']
              [[''appsscript.json'']]"
  let ?e' = "session False False (Inr [\<lparr>localPath = ''appsscript.json''\<rparr>]) [''appsscript.json'']
              [[''appsscript.json'']]"
  let ?unset = "\<lparr>optWatch = Some True, optForce = None\<rparr>"
  let ?forced = "\<lparr>optWatch = Some True, optForce = Some True\<rparr>"
  have before: "force (initial ?unset) \<noteq> Some True"
    by (simp add: initial_def)
  have after: "force (snd (command ?e ?unset)) = Some True"
    by code_simp
  have forced: "force (initial ?forced) = Some True"
    by (simp add: initial_def)
  have "upgradeOnly ?e (initial ?unset) (snd (command ?e ?unset))"
    using force_flag_upgrade_only [where e = ?e and options = ?unset] by simp
  with before after have
    "isInteractive ?e \<and>
     (\<exists>k \<in> {prompts (initial ?unset) ..< prompts (snd (command ?e ?unset))}. promptAnswer ?e k)"
    unfolding upgradeOnly_def by blast
  moreover have "upgradeOnly ?e' (initial ?forced) (snd (command ?e' ?forced))"
    using force_flag_upgrade_only [where e = ?e' and options = ?forced] by simp
  with forced have "force (snd (command ?e' ?forced)) = Some True"
    unfolding upgradeOnly_def by blast
  ultimately show ?thesis
    using before after forced by blast
qed

subsection \<open>A declined push and the watcher\<close>

text \<open>
  A cycle that the watcher starts and that the gate declines stops the watcher (lines
  97-98), and a stopped watcher delivers nothing.
\<close>

lemma onBatch_declined_stops:
  assumes "\<not> fst (manifestGate e paths s)"
  shows "fst (onBatch e paths s) = Inr ()"
    and "\<not> watching (snd (onBatch e paths s))"
    and "deliver e bs (snd (onBatch e paths s)) = (Inr (), snd (onBatch e paths s))"
proof -
  from assms have run: "onBatch e paths s =
      (Inr (), stopWatching (emit (Log ''Skipping push.'') (snd (manifestGate e paths s))))"
    by (simp add: onBatch_def onChange_declined)
  show "fst (onBatch e paths s) = Inr ()"
    by (simp add: run)
  show off: "\<not> watching (snd (onBatch e paths s))"
    by (simp add: run stopWatching_def emit_def)
  then show "deliver e bs (snd (onBatch e paths s)) = (Inr (), snd (onBatch e paths s))"
    by (cases bs) simp_all
qed

lemma deliver_declined_stops:
  assumes "watching s" and "\<not> fst (manifestGate e paths s)"
  shows "deliver e (paths # bs) s = (Inr (), snd (onBatch e paths s))"
  using assms(1) onBatch_declined_stops(1,2) [OF assms(2)]
    onBatch_declined_stops(3) [OF assms(2), of bs]
  by (cases "onBatch e paths s") simp

text \<open>
  The cycle on the pending changes is not treated so: line 77 drops what \<^verbatim>\<open>onChange\<close>
  returns, and with \<^verbatim>\<open>--watch\<close> the command subscribes whatever the gate said.
\<close>

lemma command_subscribes_after_decline:
  assumes "changedFiles e \<noteq> []"
    and "\<not> fst (manifestGate e (map localPath (changedFiles e)) (initial options))"
    and "truthy (optWatch options)"
  shows "command e options =
     watchLocalFiles e (snd (onChange e (map localPath (changedFiles e)) (initial options)))"
  using assms by (simp add: command_def initialCycle_def onChange_declined)

text \<open>
  C1. In watch mode a declined cycle is to stop the session, the cycle on the pending
  changes included. The code does so for the cycles that the watcher starts (the two
  lemmas above) and not for the first one: the user starts \<^verbatim>\<open>push --watch\<close> with a
  changed manifest pending and answers the prompt with no; the command logs
  \<^verbatim>\<open>Skipping push.\<close> and then subscribes all the same, and the next batch, a change of
  Code.js, is processed and pushed.
\<close>

theorem command_watches_after_initial_decline:
  "command
     (session True False (Inr [\<lparr>localPath = ''appsscript.json''\<rparr>, \<lparr>localPath = ''Code.js''\<rparr>])
        [''appsscript.json''] [[''Code.js'']])
     \<lparr>optWatch = Some True, optForce = None\<rparr>
   = (Inr (),
      \<lparr>force = Some False, prompts = 1, pushes = 1, watching = True,
       out = [Prompt ''Manifest file has been updated. Do you want to push and overwrite?'',
              Log ''Skipping push.'',
              Subscribe,
              Spinner ''Pushing files...'', PushCall, Log ''Pushed 2 files.'',
              Log (treeMark @ '' appsscript.json''), Log (treeMark @ '' Code.js''),
              Log ''Waiting for changes...'']\<rparr>)"
  by code_simp

end
